theory Spec2Isabelle
  imports Main "HOL-Library.Word"
begin

section \<open>The TodoApp contract (smart_contracts/todo_app/contract.py)\<close>

text \<open>
  The contract keeps three pieces of storage, declared in \<^verbatim>\<open>__init__\<close>:
  a global counter \<^verbatim>\<open>todo_counter = GlobalState(UInt64(0))\<close> and two box maps
  \<^verbatim>\<open>todos = BoxMap(arc4.UInt64, arc4.String)\<close> and
  \<^verbatim>\<open>completed = BoxMap(arc4.UInt64, arc4.Bool)\<close>.
  A \<^verbatim>\<open>UInt64\<close> is a 64-bit unsigned machine integer, an \<^verbatim>\<open>arc4.UInt64\<close> its
  8-byte encoding (the conversion between the two loses nothing, so both are \<open>64 word\<close>);
  an \<^verbatim>\<open>arc4.String\<close> is a byte string; a box map is a partial map from keys to values.
  The two box maps have different key prefixes (their attribute names), so a box of one is
  never a box of the other: they are two separate maps. What the host may refuse before the
  contract's code runs (the size of an argument, the funding of box storage) is not part of
  the contract and not part of the model.
\<close>

type_synonym uint64 = "64 word"

record TodoApp =
  todo_counter :: uint64
  todos :: "uint64 \<rightharpoonup> string"
  completed :: "uint64 \<rightharpoonup> bool"

text \<open>The state that \<^verbatim>\<open>__init__\<close> sets up: counter 0, no boxes.\<close>

definition init :: TodoApp where
  "init = \<lparr>todo_counter = 0, todos = Map.empty, completed = Map.empty\<rparr>"

subsection \<open>UInt64 arithmetic\<close>

text \<open>
  The only arithmetic of the contract is \<^verbatim>\<open>current_id + UInt64(1)\<close>. Addition of two
  \<^verbatim>\<open>UInt64\<close> values does not wrap around: when the sum does not fit into 64 bits the
  program fails and the call is rejected. The failure is a value of the model.
\<close>

datatype avm_error = UInt64Overflow

definition uint64_add :: "uint64 \<Rightarrow> uint64 \<Rightarrow> avm_error + uint64" where
  "uint64_add a b =
     (if unat a + unat b < 2 ^ 64 then Inr (a + b) else Inl UInt64Overflow)"

subsection \<open>The six ABI methods\<close>

text \<open>
  \<^verbatim>\<open>create_todo\<close>: read the counter, add one, write the counter back, then write the
  task into \<^verbatim>\<open>todos\<close> and \<open>False\<close> into \<^verbatim>\<open>completed\<close> under the new id, and
  return the id. The addition comes before every write, so a failing call has written nothing.
\<close>

definition create_todo :: "TodoApp \<Rightarrow> string \<Rightarrow> avm_error + (uint64 \<times> TodoApp)" where
  "create_todo s task =
     (let current_id = todo_counter s in
      case uint64_add current_id 1 of
        Inl e \<Rightarrow> Inl e
      | Inr new_id \<Rightarrow>
          (let s1 = s\<lparr>todo_counter := new_id\<rparr>;
               todo_id = new_id;
               s2 = s1\<lparr>todos := (todos s1)(todo_id \<mapsto> task)\<rparr>;
               s3 = s2\<lparr>completed := (completed s2)(todo_id \<mapsto> False)\<rparr>
           in Inr (todo_id, s3)))"

text \<open>
  \<^verbatim>\<open>complete_todo\<close>: the existence check is on \<^verbatim>\<open>todos\<close>, the write on
  \<^verbatim>\<open>completed\<close>.
\<close>

definition complete_todo :: "TodoApp \<Rightarrow> uint64 \<Rightarrow> string \<times> TodoApp" where
  "complete_todo s todo_id =
     (if todo_id \<notin> dom (todos s) then (''Todo not found'', s)
      else (''Todo marked as completed!'',
            s\<lparr>completed := (completed s)(todo_id \<mapsto> True)\<rparr>))"

text \<open>
  \<^verbatim>\<open>get_todo\<close>: the box is read only after the existence check, so the read cannot fail.
\<close>

definition get_todo :: "TodoApp \<Rightarrow> uint64 \<Rightarrow> string" where
  "get_todo s todo_id =
     (case todos s todo_id of
        None \<Rightarrow> ''Todo not found''
      | Some task \<Rightarrow> task)"

text \<open>\<^verbatim>\<open>is_completed\<close>: the existence check is on \<^verbatim>\<open>completed\<close> itself.\<close>

definition is_completed :: "TodoApp \<Rightarrow> uint64 \<Rightarrow> bool" where
  "is_completed s todo_id =
     (case completed s todo_id of
        None \<Rightarrow> False
      | Some b \<Rightarrow> b)"

definition get_total_todos :: "TodoApp \<Rightarrow> uint64" where
  "get_total_todos s = todo_counter s"

text \<open>
  \<^verbatim>\<open>delete_todo\<close>: the existence check is on \<^verbatim>\<open>todos\<close>; both boxes are then
  deleted. Deleting a box that does not exist does nothing (the flag that the box operation
  returns is dropped by \<^verbatim>\<open>del\<close>), as removing a key from a map that lacks it.
\<close>

definition delete_todo :: "TodoApp \<Rightarrow> uint64 \<Rightarrow> string \<times> TodoApp" where
  "delete_todo s todo_id =
     (if todo_id \<notin> dom (todos s) then (''Todo not found'', s)
      else (let s1 = s\<lparr>todos := (todos s)(todo_id := None)\<rparr>;
                s2 = s1\<lparr>completed := (completed s1)(todo_id := None)\<rparr>
            in (''Todo deleted successfully!'', s2)))"

subsection \<open>Sequences of calls\<close>

text \<open>
  Each method is an entry point of its own (\<^verbatim>\<open>@arc4.abimethod()\<close>); the host runs one
  call after the other on the stored state. A call that fails is rejected as a whole and
  leaves the storage as it was.
\<close>

datatype call =
    CreateTodo string
  | CompleteTodo uint64
  | GetTodo uint64
  | IsCompleted uint64
  | GetTotalTodos
  | DeleteTodo uint64

datatype outcome =
    ReturnedUInt64 uint64
  | ReturnedString string
  | ReturnedBool bool
  | Rejected avm_error

fun invoke :: "TodoApp \<Rightarrow> call \<Rightarrow> outcome \<times> TodoApp" where
  "invoke s (CreateTodo task) =
     (case create_todo s task of
        Inl e \<Rightarrow> (Rejected e, s)
      | Inr (todo_id, s') \<Rightarrow> (ReturnedUInt64 todo_id, s'))"
| "invoke s (CompleteTodo todo_id) =
     (case complete_todo s todo_id of (msg, s') \<Rightarrow> (ReturnedString msg, s'))"
| "invoke s (GetTodo todo_id) = (ReturnedString (get_todo s todo_id), s)"
| "invoke s (IsCompleted todo_id) = (ReturnedBool (is_completed s todo_id), s)"
| "invoke s GetTotalTodos = (ReturnedUInt64 (get_total_todos s), s)"
| "invoke s (DeleteTodo todo_id) =
     (case delete_todo s todo_id of (msg, s') \<Rightarrow> (ReturnedString msg, s'))"

text \<open>The state after a sequence of calls, and what each call returned.\<close>

fun exec :: "TodoApp \<Rightarrow> call list \<Rightarrow> TodoApp" where
  "exec s [] = s"
| "exec s (c # cs) = exec (snd (invoke s c)) cs"

fun outcomes :: "TodoApp \<Rightarrow> call list \<Rightarrow> outcome list" where
  "outcomes s [] = []"
| "outcomes s (c # cs) = fst (invoke s c) # outcomes (snd (invoke s c)) cs"

text \<open>The ids returned by the \<^verbatim>\<open>create_todo\<close> calls of a sequence, in order.\<close>

fun created_id :: "call \<Rightarrow> outcome \<Rightarrow> uint64 list" where
  "created_id (CreateTodo task) (ReturnedUInt64 todo_id) = [todo_id]"
| "created_id c r = []"

fun created_ids :: "TodoApp \<Rightarrow> call list \<Rightarrow> uint64 list" where
  "created_ids s [] = []"
| "created_ids s (c # cs) =
     created_id c (fst (invoke s c)) @ created_ids (snd (invoke s c)) cs"

section \<open>Properties\<close>

subsection \<open>UInt64 addition\<close>

lemma uint64_add_one_ok:
  "unat c < 2 ^ 64 - 1 \<Longrightarrow> uint64_add c 1 = Inr (c + 1)"
  by (simp add: uint64_add_def)

lemma unat_uint64_succ:
  fixes c :: uint64
  assumes "unat c < 2 ^ 64 - 1"
  shows "unat (c + 1) = unat c + 1"
proof -
  from assms have "unat c + unat (1 :: uint64) < 2 ^ LENGTH(64)" by simp
  then have "unat (c + 1) = unat c + unat (1 :: uint64)"
    by (simp only: unat_add_lem)
  then show ?thesis by simp
qed

lemma uint64_add_one_overflow:
  "\<not> unat c < 2 ^ 64 - 1 \<Longrightarrow> uint64_add c 1 = Inl UInt64Overflow"
  by (simp add: uint64_add_def)

lemma create_todo_eq:
  "create_todo s task =
     (if unat (todo_counter s) < 2 ^ 64 - 1
      then Inr (todo_counter s + 1,
                \<lparr>todo_counter = todo_counter s + 1,
                 todos = (todos s)(todo_counter s + 1 \<mapsto> task),
                 completed = (completed s)(todo_counter s + 1 \<mapsto> False)\<rparr>)
      else Inl UInt64Overflow)"
  by (simp add: create_todo_def Let_def uint64_add_one_ok uint64_add_one_overflow)

subsection \<open>Sequences of calls: the counter and the ids returned\<close>

lemma exec_append: "exec s (cs @ ds) = exec (exec s cs) ds"
  by (induction cs arbitrary: s) simp_all

lemma created_ids_append:
  "created_ids s (cs @ ds) = created_ids s cs @ created_ids (exec s cs) ds"
  by (induction cs arbitrary: s) simp_all

lemma invoke_create:
  "invoke s (CreateTodo task) =
     (if unat (todo_counter s) < 2 ^ 64 - 1
      then (ReturnedUInt64 (todo_counter s + 1),
            \<lparr>todo_counter = todo_counter s + 1,
             todos = (todos s)(todo_counter s + 1 \<mapsto> task),
             completed = (completed s)(todo_counter s + 1 \<mapsto> False)\<rparr>)
      else (Rejected UInt64Overflow, s))"
  by (simp add: create_todo_eq)

lemma invoke_created:
  "(created_id c (fst (invoke s c)) = []
      \<and> todo_counter (snd (invoke s c)) = todo_counter s)
   \<or> (created_id c (fst (invoke s c)) = [todo_counter s + 1]
      \<and> todo_counter (snd (invoke s c)) = todo_counter s + 1
      \<and> unat (todo_counter s + 1) = unat (todo_counter s) + 1)"
proof (cases c)
  case (CreateTodo task)
  then show ?thesis by (simp add: create_todo_eq unat_uint64_succ)
next
  case (CompleteTodo i)
  then show ?thesis by (simp add: complete_todo_def)
next
  case (DeleteTodo i)
  then show ?thesis by (simp add: delete_todo_def Let_def)
qed simp_all

lemma invoke_counter_mono:
  "unat (todo_counter s) \<le> unat (todo_counter (snd (invoke s c)))"
  using invoke_created [of c s] by auto

lemma map_from_one_step:
  fixes c :: uint64
  shows "(c + 1) # map (\<lambda>j. c + 1 + of_nat j) [1..<Suc k] = map (\<lambda>j. c + of_nat j) [1..<Suc (Suc k)]"
proof -
  have "[1..<Suc (Suc k)] = 1 # map Suc [1..<Suc k]"
    by (simp only: map_Suc_upt upt_conv_Cons [of 1 "Suc (Suc k)"])
  then show ?thesis by (simp add: comp_def add.assoc add.commute)
qed

lemma unat_counter_exec:
  "unat (todo_counter (exec s cs)) = unat (todo_counter s) + length (created_ids s cs)"
proof (induction cs arbitrary: s)
  case Nil
  show ?case by simp
next
  case (Cons c cs)
  from invoke_created [of c s] Cons.IH [of "snd (invoke s c)"] show ?case
    by auto
qed

lemma counter_exec:
  "todo_counter (exec s cs) = todo_counter s + of_nat (length (created_ids s cs))"
proof (induction cs arbitrary: s)
  case Nil
  show ?case by simp
next
  case (Cons c cs)
  from invoke_created [of c s] Cons.IH [of "snd (invoke s c)"] show ?case
    by auto
qed

lemma created_ids_from:
  "created_ids s cs =
     map (\<lambda>j. todo_counter s + of_nat j) [1..<Suc (length (created_ids s cs))]"
proof (induction cs arbitrary: s)
  case Nil
  show ?case by simp
next
  case (Cons c cs)
  let ?s = "snd (invoke s c)"
  let ?k = "length (created_ids ?s cs)"
  note IH = Cons.IH [of ?s]
  from invoke_created [of c s] show ?case
  proof
    assume a: "created_id c (fst (invoke s c)) = [] \<and> todo_counter ?s = todo_counter s"
    then have "created_ids s (c # cs) = created_ids ?s cs" by simp
    with IH a show ?thesis by (simp only:)
  next
    assume a: "created_id c (fst (invoke s c)) = [todo_counter s + 1]
      \<and> todo_counter ?s = todo_counter s + 1
      \<and> unat (todo_counter s + 1) = unat (todo_counter s) + 1"
    from a have 0: "created_ids s (c # cs) = (todo_counter s + 1) # created_ids ?s cs"
      by simp
    from IH a have "created_ids ?s cs = map (\<lambda>j. todo_counter s + 1 + of_nat j) [1..<Suc ?k]"
      by (simp only:)
    with 0 have "created_ids s (c # cs) = (todo_counter s + 1) # map (\<lambda>j. todo_counter s + 1 + of_nat j) [1..<Suc ?k]"
      by (simp only:)
    then have 1: "created_ids s (c # cs) = map (\<lambda>j. todo_counter s + of_nat j) [1..<Suc (Suc ?k)]"
      by (simp only: map_from_one_step)
    from 0 have 2: "length (created_ids s (c # cs)) = Suc ?k" by simp
    from 1 2 show ?thesis by (simp only:)
  qed
qed

lemma created_ids_init:
  "created_ids init cs = map of_nat [1..<Suc (length (created_ids init cs))]"
  using created_ids_from [of init cs] by (simp add: init_def)

lemma length_created_ids_init:
  "length (created_ids init cs) = unat (todo_counter (exec init cs))"
  using unat_counter_exec [of init cs] by (simp add: init_def)

lemma length_created_ids_bound: "length (created_ids init cs) < 2 ^ 64"
proof -
  have "unat (todo_counter (exec init cs)) < 2 ^ LENGTH(64)" by (rule unsigned_less)
  then show ?thesis by (simp add: length_created_ids_init)
qed

lemma unat_of_nat_uint64:
  "n < 2 ^ 64 \<Longrightarrow> unat (of_nat n :: uint64) = n"
  by (simp add: unat_of_nat)

lemma created_ids_strict: "sorted_wrt (<) (created_ids init cs)"
proof -
  let ?k = "length (created_ids init cs)"
  have "sorted_wrt (\<lambda>x y. (of_nat x :: uint64) < of_nat y) [1..<Suc ?k]"
  proof (rule sorted_wrt_mono_rel [of _ "(<)"])
    fix x y :: nat
    assume "x \<in> set [1..<Suc ?k]" "y \<in> set [1..<Suc ?k]" "x < y"
    with length_created_ids_bound [of cs] have "x < 2 ^ 64" "y < 2 ^ 64" "x < y" by auto
    then show "(of_nat x :: uint64) < of_nat y"
      by (simp add: word_less_nat_alt unat_of_nat_uint64)
  qed (rule sorted_wrt_upt)
  then have "sorted_wrt (<) (map of_nat [1..<Suc ?k] :: uint64 list)"
    by (simp only: sorted_wrt_map)
  with created_ids_init [of cs] show ?thesis by (simp only:)
qed

lemma set_created_ids:
  "set (created_ids init cs) = {k. 0 < unat k \<and> unat k \<le> unat (todo_counter (exec init cs))}"
proof -
  let ?n = "unat (todo_counter (exec init cs))"
  have n: "?n < 2 ^ 64" using unsigned_less [of "todo_counter (exec init cs)"] by simp
  have eq: "created_ids init cs = map of_nat [1..<Suc ?n]"
    using created_ids_init [of cs] by (simp only: length_created_ids_init)
  show ?thesis
  proof (rule set_eqI)
    fix k :: uint64
    show "k \<in> set (created_ids init cs) \<longleftrightarrow> k \<in> {k. 0 < unat k \<and> unat k \<le> ?n}"
    proof
      assume "k \<in> set (created_ids init cs)"
      with eq obtain j where j: "k = of_nat j" "1 \<le> j" "j \<le> ?n" by auto
      with n have "unat k = j" by (simp add: unat_of_nat_uint64)
      with j show "k \<in> {k. 0 < unat k \<and> unat k \<le> ?n}" by simp
    next
      assume "k \<in> {k. 0 < unat k \<and> unat k \<le> ?n}"
      then have "unat k \<in> set [1..<Suc ?n]" by auto
      then have "of_nat (unat k) \<in> set (map of_nat [1..<Suc ?n] :: uint64 list)"
        unfolding set_map by (rule imageI)
      with eq show "k \<in> set (created_ids init cs)" by simp
    qed
  qed
qed

lemma creates_succeed:
  "unat (todo_counter s) + length tasks < 2 ^ 64 \<Longrightarrow>
     length (created_ids s (map CreateTodo tasks)) = length tasks"
proof (induction tasks arbitrary: s)
  case Nil
  show ?case by simp
next
  case (Cons t ts)
  then have lt: "unat (todo_counter s) < 2 ^ 64 - 1" by simp
  let ?s = "snd (invoke s (CreateTodo t))"
  from lt have "unat (todo_counter ?s) = unat (todo_counter s) + 1"
    by (simp add: create_todo_eq unat_uint64_succ)
  with Cons.prems have "unat (todo_counter ?s) + length ts < 2 ^ 64" by simp
  then have "length (created_ids ?s (map CreateTodo ts)) = length ts" by (rule Cons.IH)
  moreover from lt have "created_id (CreateTodo t) (fst (invoke s (CreateTodo t))) = [todo_counter s + 1]"
    by (simp add: create_todo_eq)
  ultimately show ?case by simp
qed

subsection \<open>Invariants of the two box maps\<close>

lemma invoke_keys_issued:
  assumes "\<And>k. k \<in> dom (todos s) \<union> dom (completed s) \<Longrightarrow>
             0 < unat k \<and> unat k \<le> unat (todo_counter s)"
    and "k \<in> dom (todos (snd (invoke s c))) \<union> dom (completed (snd (invoke s c)))"
  shows "0 < unat k \<and> unat k \<le> unat (todo_counter (snd (invoke s c)))"
proof (cases c)
  case (CreateTodo task)
  show ?thesis
  proof (cases "unat (todo_counter s) < 2 ^ 64 - 1")
    case True
    then have u: "unat (todo_counter s + 1) = unat (todo_counter s) + 1"
      by (rule unat_uint64_succ)
    from True CreateTodo assms(2) have "k = todo_counter s + 1 \<or> k \<in> dom (todos s) \<union> dom (completed s)"
      by (auto simp: create_todo_eq split: if_splits)
    then show ?thesis
    proof
      assume "k = todo_counter s + 1"
      with True CreateTodo u show ?thesis by (simp add: create_todo_eq)
    next
      assume "k \<in> dom (todos s) \<union> dom (completed s)"
      then have "0 < unat k \<and> unat k \<le> unat (todo_counter s)" by (rule assms(1))
      with True CreateTodo u show ?thesis by (simp add: create_todo_eq)
    qed
  next
    case False
    with CreateTodo assms(2) have "k \<in> dom (todos s) \<union> dom (completed s)"
      by (simp add: create_todo_eq)
    then have "0 < unat k \<and> unat k \<le> unat (todo_counter s)" by (rule assms(1))
    with False CreateTodo show ?thesis by (simp add: create_todo_eq)
  qed
next
  case (CompleteTodo i)
  with assms(2) have "k \<in> dom (todos s) \<union> dom (completed s)"
    by (auto simp: complete_todo_def split: if_splits)
  then have "0 < unat k \<and> unat k \<le> unat (todo_counter s)" by (rule assms(1))
  with CompleteTodo show ?thesis by (simp add: complete_todo_def)
next
  case (DeleteTodo i)
  with assms(2) have "k \<in> dom (todos s) \<union> dom (completed s)"
    by (auto simp: delete_todo_def Let_def split: if_splits)
  then have "0 < unat k \<and> unat k \<le> unat (todo_counter s)" by (rule assms(1))
  with DeleteTodo show ?thesis by (simp add: delete_todo_def Let_def)
next
  case (GetTodo i)
  with assms show ?thesis by simp
next
  case (IsCompleted i)
  with assms show ?thesis by simp
next
  case GetTotalTodos
  with assms show ?thesis by simp
qed

lemma exec_keys_issued:
  assumes "\<And>k. k \<in> dom (todos s) \<union> dom (completed s) \<Longrightarrow>
             0 < unat k \<and> unat k \<le> unat (todo_counter s)"
    and "k \<in> dom (todos (exec s cs)) \<union> dom (completed (exec s cs))"
  shows "0 < unat k \<and> unat k \<le> unat (todo_counter (exec s cs))"
  using assms
proof (induction cs arbitrary: s)
  case Nil
  then show ?case by simp
next
  case (Cons c cs)
  show ?case
    unfolding exec.simps
  proof (rule Cons.IH)
    fix j
    assume "j \<in> dom (todos (snd (invoke s c))) \<union> dom (completed (snd (invoke s c)))"
    with Cons.prems(1) show "0 < unat j \<and> unat j \<le> unat (todo_counter (snd (invoke s c)))"
      by (rule invoke_keys_issued)
  next
    from Cons.prems(2) show "k \<in> dom (todos (exec (snd (invoke s c)) cs)) \<union> dom (completed (exec (snd (invoke s c)) cs))"
      by simp
  qed
qed

lemma reachable_keys_issued:
  "k \<in> dom (todos (exec init cs)) \<union> dom (completed (exec init cs)) \<Longrightarrow>
     0 < unat k \<and> unat k \<le> unat (todo_counter (exec init cs))"
proof (rule exec_keys_issued [of init k cs])
  fix j
  assume "j \<in> dom (todos init) \<union> dom (completed init)"
  then show "0 < unat j \<and> unat j \<le> unat (todo_counter init)" by (simp add: init_def)
qed

lemma invoke_dom_eq:
  "dom (todos s) = dom (completed s) \<Longrightarrow>
     dom (todos (snd (invoke s c))) = dom (completed (snd (invoke s c)))"
proof (cases c)
  case (CreateTodo task)
  assume "dom (todos s) = dom (completed s)"
  with CreateTodo show ?thesis by (simp add: create_todo_eq)
next
  case (CompleteTodo i)
  assume "dom (todos s) = dom (completed s)"
  with CompleteTodo show ?thesis by (auto simp: complete_todo_def)
next
  case (DeleteTodo i)
  assume "dom (todos s) = dom (completed s)"
  with DeleteTodo show ?thesis by (simp add: delete_todo_def Let_def)
qed simp_all

lemma exec_dom_eq:
  "dom (todos s) = dom (completed s) \<Longrightarrow>
     dom (todos (exec s cs)) = dom (completed (exec s cs))"
  by (induction cs arbitrary: s) (simp_all add: invoke_dom_eq)

lemma invoke_stays_absent:
  assumes "todos s i = None" "completed s i = None" "unat i \<le> unat (todo_counter s)"
  shows "todos (snd (invoke s c)) i = None \<and> completed (snd (invoke s c)) i = None
         \<and> unat i \<le> unat (todo_counter (snd (invoke s c)))"
proof (cases c)
  case (CreateTodo task)
  show ?thesis
  proof (cases "unat (todo_counter s) < 2 ^ 64 - 1")
    case True
    then have u: "unat (todo_counter s + 1) = unat (todo_counter s) + 1"
      by (rule unat_uint64_succ)
    with assms(3) have "i \<noteq> todo_counter s + 1" by auto
    with True CreateTodo assms u show ?thesis by (simp add: create_todo_eq)
  next
    case False
    with CreateTodo assms show ?thesis by (simp add: create_todo_eq)
  qed
next
  case (CompleteTodo j)
  with assms show ?thesis by (auto simp: complete_todo_def)
next
  case (DeleteTodo j)
  with assms show ?thesis by (simp add: delete_todo_def Let_def)
next
  case (GetTodo j)
  with assms show ?thesis by simp
next
  case (IsCompleted j)
  with assms show ?thesis by simp
next
  case GetTotalTodos
  with assms show ?thesis by simp
qed

lemma exec_stays_absent:
  "todos s i = None \<Longrightarrow> completed s i = None \<Longrightarrow> unat i \<le> unat (todo_counter s) \<Longrightarrow>
     todos (exec s cs) i = None \<and> completed (exec s cs) i = None"
proof (induction cs arbitrary: s)
  case Nil
  then show ?case by simp
next
  case (Cons c cs)
  from invoke_stays_absent [OF Cons.prems, of c] show ?case
    by (simp add: Cons.IH)
qed

subsection \<open>create\_todo\<close>

text \<open>
  Claim C1, as amended. The claim says that \<^verbatim>\<open>create_todo\<close> succeeds in every state.
  It does so in every state whose counter is below \<open>2^64 - 1\<close>: there, for every task
  (the empty string included), the call returns the id \<open>counter + 1\<close>, stores that id as
  the new counter (one more than the old one, also as a number), maps the id to the task in
  \<^verbatim>\<open>todos\<close> and to \<open>False\<close> in \<^verbatim>\<open>completed\<close>, and leaves every other entry of both
  maps as it was.
\<close>

theorem create_todo_below_max:
  assumes "unat (todo_counter s) < 2 ^ 64 - 1"
  shows "create_todo s task =
           Inr (todo_counter s + 1,
                \<lparr>todo_counter = todo_counter s + 1,
                 todos = (todos s)(todo_counter s + 1 \<mapsto> task),
                 completed = (completed s)(todo_counter s + 1 \<mapsto> False)\<rparr>)
         \<and> unat (todo_counter s + 1) = unat (todo_counter s) + 1"
  using assms by (simp add: create_todo_eq unat_uint64_succ)

theorem create_todo_below_max_witness:
  "unat (todo_counter init) < 2 ^ 64 - 1
   \<and> create_todo init [] =
       Inr (1, init\<lparr>todo_counter := 1, todos := (todos init)(1 \<mapsto> []),
                    completed := (completed init)(1 \<mapsto> False)\<rparr>)"
  using create_todo_below_max [of init "[]"] by (simp add: init_def)

text \<open>
  Claim C1 as stated fails in the state whose counter is \<open>2^64 - 1\<close>: the addition
  \<^verbatim>\<open>current_id + UInt64(1)\<close> overflows and the call is rejected.
\<close>

theorem create_todo_at_max_counterexample:
  "create_todo (init\<lparr>todo_counter := 18446744073709551615\<rparr>) [] = Inl UInt64Overflow"
  by (simp add: create_todo_def uint64_add_def)

subsection \<open>The ids returned by create\_todo, and the count\<close>

text \<open>
  Claim C2. For every sequence of calls from the initial state, the ids returned by its
  successive \<^verbatim>\<open>create_todo\<close> calls are \<open>1, 2, 3, ...\<close> in this order: consecutive and
  strictly increasing, whatever other calls come in between. \<^verbatim>\<open>get_total_todos\<close> then
  returns the number of ids returned so far; after \<open>N\<close> creates in a row (\<open>N\<close> in the range
  of the 64-bit counter, so that all of them return) the ids are \<open>1, ..., N\<close> and the count
  is \<open>N\<close>.
\<close>

theorem created_ids_consecutive:
  "created_ids init cs = map of_nat [1..<Suc (length (created_ids init cs))]
   \<and> sorted_wrt (<) (created_ids init cs)
   \<and> unat (get_total_todos (exec init cs)) = length (created_ids init cs)
   \<and> (length tasks < 2 ^ 64 \<longrightarrow>
        created_ids init (map CreateTodo tasks) = map of_nat [1..<Suc (length tasks)]
        \<and> unat (get_total_todos (exec init (map CreateTodo tasks))) = length tasks)"
proof -
  have 1: "created_ids init cs = map of_nat [1..<Suc (length (created_ids init cs))]"
    by (rule created_ids_init)
  have 2: "sorted_wrt (<) (created_ids init cs)"
    by (rule created_ids_strict)
  have 3: "unat (get_total_todos (exec init cs)) = length (created_ids init cs)"
    by (simp add: get_total_todos_def length_created_ids_init)
  have 4: "created_ids init (map CreateTodo tasks) = map of_nat [1..<Suc (length tasks)]
        \<and> unat (get_total_todos (exec init (map CreateTodo tasks))) = length tasks"
    if "length tasks < 2 ^ 64"
  proof -
    from that have "unat (todo_counter init) + length tasks < 2 ^ 64" by (simp add: init_def)
    then have len: "length (created_ids init (map CreateTodo tasks)) = length tasks"
      by (rule creates_succeed)
    from created_ids_init [of "map CreateTodo tasks"] len
    have "created_ids init (map CreateTodo tasks) = map of_nat [1..<Suc (length tasks)]"
      by (simp only:)
    moreover from len have "unat (get_total_todos (exec init (map CreateTodo tasks))) = length tasks"
      by (simp add: get_total_todos_def length_created_ids_init [symmetric])
    ultimately show ?thesis by (rule conjI)
  qed
  from 1 2 3 4 show ?thesis by blast
qed

theorem created_ids_consecutive_witness:
  "length [''Buy milk'', ''Walk dog''] < 2 ^ 64
   \<and> created_ids init (map CreateTodo [''Buy milk'', ''Walk dog'']) = [1, 2]
   \<and> unat (get_total_todos (exec init (map CreateTodo [''Buy milk'', ''Walk dog'']))) = 2"
  using created_ids_consecutive [of "[]" "[''Buy milk'', ''Walk dog'']"] by simp

text \<open>The scenario of the specification, call by call.\<close>

lemma concrete_scenario:
  "outcomes init [CreateTodo ''Buy milk'', CreateTodo ''Walk dog'', CompleteTodo 1,
           IsCompleted 1, IsCompleted 2, GetTodo 2, DeleteTodo 1, GetTodo 1, GetTotalTodos]
   = [ReturnedUInt64 1, ReturnedUInt64 2, ReturnedString ''Todo marked as completed!'',
      ReturnedBool True, ReturnedBool False, ReturnedString ''Walk dog'',
      ReturnedString ''Todo deleted successfully!'', ReturnedString ''Todo not found'',
      ReturnedUInt64 2]"
  by (simp add: init_def create_todo_eq complete_todo_def delete_todo_def Let_def
        get_todo_def is_completed_def get_total_todos_def)

subsection \<open>complete\_todo\<close>

text \<open>
  Claim C3. For every state and id: when the id is absent from \<^verbatim>\<open>todos\<close>,
  \<^verbatim>\<open>complete_todo\<close> returns the not-found message and the state is unchanged (counter and
  both maps); otherwise it sets the entry of the id in \<^verbatim>\<open>completed\<close> to \<open>True\<close>,
  returns the success message and leaves \<^verbatim>\<open>todos\<close> and the counter as they were. In both
  cases a second call with the same id gives the same message and the same state.
\<close>

theorem complete_todo_spec:
  "(todo_id \<notin> dom (todos s) \<longrightarrow> complete_todo s todo_id = (''Todo not found'', s))
   \<and> (todo_id \<in> dom (todos s) \<longrightarrow>
        complete_todo s todo_id =
          (''Todo marked as completed!'', s\<lparr>completed := (completed s)(todo_id \<mapsto> True)\<rparr>)
        \<and> completed (snd (complete_todo s todo_id)) todo_id = Some True
        \<and> todos (snd (complete_todo s todo_id)) = todos s
        \<and> todo_counter (snd (complete_todo s todo_id)) = todo_counter s)
   \<and> complete_todo (snd (complete_todo s todo_id)) todo_id = complete_todo s todo_id"
  by (simp add: complete_todo_def)

theorem complete_todo_spec_witness:
  "2 \<notin> dom (todos (exec init [CreateTodo ''Buy milk'']))
   \<and> fst (complete_todo (exec init [CreateTodo ''Buy milk'']) 2) = ''Todo not found''
   \<and> 1 \<in> dom (todos (exec init [CreateTodo ''Buy milk'']))
   \<and> fst (complete_todo (exec init [CreateTodo ''Buy milk'']) 1) = ''Todo marked as completed!''
   \<and> completed (snd (complete_todo (exec init [CreateTodo ''Buy milk'']) 1)) 1 = Some True"
  using complete_todo_spec [of 2 "exec init [CreateTodo ''Buy milk'']"]
    complete_todo_spec [of 1 "exec init [CreateTodo ''Buy milk'']"]
  by (simp add: init_def create_todo_eq)

subsection \<open>get\_todo\<close>

text \<open>
  Claim C4. For every state and id, \<^verbatim>\<open>get_todo\<close> returns the not-found message when
  the id is absent from \<^verbatim>\<open>todos\<close> and the stored string, unchanged, otherwise; the call
  leaves the state as it is. After \<^verbatim>\<open>create_todo\<close> with task \<open>x\<close> has returned an id,
  \<^verbatim>\<open>get_todo\<close> of that id returns \<open>x\<close>.
\<close>

theorem get_todo_spec:
  "(todo_id \<notin> dom (todos s) \<longrightarrow> get_todo s todo_id = ''Todo not found'')
   \<and> (todos s todo_id = Some task \<longrightarrow> get_todo s todo_id = task)
   \<and> snd (invoke s (GetTodo todo_id)) = s
   \<and> fst (invoke s (GetTodo todo_id)) = ReturnedString (get_todo s todo_id)
   \<and> (create_todo s x = Inr (new_id, s') \<longrightarrow> get_todo s' new_id = x)"
  by (auto simp: get_todo_def create_todo_eq split: if_splits option.splits)

theorem get_todo_spec_witness:
  "1 \<notin> dom (todos init) \<and> get_todo init 1 = ''Todo not found''
   \<and> create_todo init ''x'' = Inr (1, exec init [CreateTodo ''x''])
   \<and> todos (exec init [CreateTodo ''x'']) 1 = Some ''x''
   \<and> get_todo (exec init [CreateTodo ''x'']) 1 = ''x''"
  using get_todo_spec [of 1 init "''x''" "''x''" 1 "exec init [CreateTodo ''x'']"]
    get_todo_spec [of 1 "exec init [CreateTodo ''x'']" "''x''" "''x''" 1 init]
  by (simp add: init_def create_todo_eq)

subsection \<open>delete\_todo\<close>

text \<open>
  Claim C6. For every state and id: when the id is absent from \<^verbatim>\<open>todos\<close>,
  \<^verbatim>\<open>delete_todo\<close> returns the not-found message and the state is unchanged; otherwise it
  removes the id from \<^verbatim>\<open>todos\<close> and from \<^verbatim>\<open>completed\<close> and returns the success
  message. In both cases the counter, and so \<^verbatim>\<open>get_total_todos\<close>, is the same before and
  after, and \<^verbatim>\<open>get_todo\<close> of the id then returns the not-found message.
\<close>

theorem delete_todo_spec:
  "(todo_id \<notin> dom (todos s) \<longrightarrow> delete_todo s todo_id = (''Todo not found'', s))
   \<and> (todo_id \<in> dom (todos s) \<longrightarrow>
        delete_todo s todo_id =
          (''Todo deleted successfully!'',
           s\<lparr>todos := (todos s)(todo_id := None), completed := (completed s)(todo_id := None)\<rparr>)
        \<and> todo_id \<notin> dom (todos (snd (delete_todo s todo_id)))
        \<and> todo_id \<notin> dom (completed (snd (delete_todo s todo_id))))
   \<and> todo_counter (snd (delete_todo s todo_id)) = todo_counter s
   \<and> get_total_todos (snd (delete_todo s todo_id)) = get_total_todos s
   \<and> get_todo (snd (delete_todo s todo_id)) todo_id = ''Todo not found''"
  by (auto simp: delete_todo_def Let_def get_total_todos_def get_todo_def split: option.splits)

theorem delete_todo_spec_witness:
  "2 \<notin> dom (todos (exec init [CreateTodo ''Buy milk'']))
   \<and> fst (delete_todo (exec init [CreateTodo ''Buy milk'']) 2) = ''Todo not found''
   \<and> 1 \<in> dom (todos (exec init [CreateTodo ''Buy milk'']))
   \<and> fst (delete_todo (exec init [CreateTodo ''Buy milk'']) 1) = ''Todo deleted successfully!''
   \<and> get_total_todos (snd (delete_todo (exec init [CreateTodo ''Buy milk'']) 1)) = 1
   \<and> get_todo (snd (delete_todo (exec init [CreateTodo ''Buy milk'']) 1)) 1 = ''Todo not found''"
  using delete_todo_spec [of 2 "exec init [CreateTodo ''Buy milk'']"]
    delete_todo_spec [of 1 "exec init [CreateTodo ''Buy milk'']"]
  by (simp add: init_def create_todo_eq get_total_todos_def delete_todo_def get_todo_def)

subsection \<open>is\_completed\<close>

lemma is_completed_after_delete:
  assumes "todo_id \<in> set (created_ids init cs)"
  shows "\<not> is_completed (exec init (cs @ DeleteTodo todo_id # ds)) todo_id"
proof -
  let ?s = "exec init cs"
  let ?d = "snd (invoke ?s (DeleteTodo todo_id))"
  have dom: "dom (todos ?s) = dom (completed ?s)"
    by (rule exec_dom_eq) (simp add: init_def)
  from assms have le: "unat todo_id \<le> unat (todo_counter ?s)"
    by (simp add: set_created_ids)
  have t: "todos ?d todo_id = None"
    by (auto simp: delete_todo_def Let_def)
  have c: "completed ?d todo_id = None"
    using dom by (auto simp: delete_todo_def Let_def)
  have n: "unat todo_id \<le> unat (todo_counter ?d)"
    using le by (simp add: delete_todo_def Let_def)
  from t c n have "completed (exec ?d ds) todo_id = None"
    by (simp add: exec_stays_absent)
  then show ?thesis by (simp add: exec_append is_completed_def)
qed

lemma is_completed_never_created:
  assumes "todo_id \<notin> set (created_ids init cs)"
  shows "\<not> is_completed (exec init cs) todo_id"
proof -
  have "completed (exec init cs) todo_id = None"
  proof (rule ccontr)
    assume "completed (exec init cs) todo_id \<noteq> None"
    then have "todo_id \<in> dom (todos (exec init cs)) \<union> dom (completed (exec init cs))"
      by auto
    then have "0 < unat todo_id \<and> unat todo_id \<le> unat (todo_counter (exec init cs))"
      by (rule reachable_keys_issued)
    with assms show False by (simp add: set_created_ids)
  qed
  then show ?thesis by (simp add: is_completed_def)
qed

text \<open>
  Claim C5. For every state and id, \<^verbatim>\<open>is_completed\<close> returns \<open>False\<close> when the id is
  absent from \<^verbatim>\<open>completed\<close> and the stored boolean otherwise. So it is \<open>False\<close> right
  after \<^verbatim>\<open>create_todo\<close> has returned the id and \<open>True\<close> after a
  \<^verbatim>\<open>complete_todo\<close> of that id; and, in every state reached from the initial one, it is
  \<open>False\<close> for an id that no \<^verbatim>\<open>create_todo\<close> has returned, and \<open>False\<close> for an id
  that was created and then deleted, whatever calls follow the deletion.
\<close>

theorem is_completed_spec:
  "(todo_id \<notin> dom (completed s) \<longrightarrow> is_completed s todo_id = False)
   \<and> (completed s todo_id = Some b \<longrightarrow> is_completed s todo_id = b)
   \<and> (create_todo s task = Inr (new_id, s') \<longrightarrow>
        \<not> is_completed s' new_id \<and> is_completed (snd (complete_todo s' new_id)) new_id)
   \<and> (todo_id \<notin> set (created_ids init cs) \<longrightarrow> \<not> is_completed (exec init cs) todo_id)
   \<and> (todo_id \<in> set (created_ids init cs) \<longrightarrow>
        \<not> is_completed (exec init (cs @ DeleteTodo todo_id # ds)) todo_id)"
proof -
  have 1: "todo_id \<notin> dom (completed s) \<longrightarrow> is_completed s todo_id = False"
    by (auto simp: is_completed_def split: option.splits)
  have 2: "completed s todo_id = Some b \<longrightarrow> is_completed s todo_id = b"
    by (simp add: is_completed_def)
  have 3: "create_todo s task = Inr (new_id, s') \<longrightarrow>
        \<not> is_completed s' new_id \<and> is_completed (snd (complete_todo s' new_id)) new_id"
    by (auto simp: create_todo_eq is_completed_def complete_todo_def split: if_splits)
  from 1 2 3 is_completed_never_created [of todo_id cs]
    is_completed_after_delete [of todo_id cs ds]
  show ?thesis by blast
qed

theorem is_completed_spec_witness:
  "3 \<notin> dom (completed (exec init [CreateTodo ''a'', CreateTodo ''b'', CompleteTodo 1]))
   \<and> \<not> is_completed (exec init [CreateTodo ''a'', CreateTodo ''b'', CompleteTodo 1]) 3
   \<and> completed (exec init [CreateTodo ''a'', CreateTodo ''b'', CompleteTodo 1]) 1 = Some True
   \<and> is_completed (exec init [CreateTodo ''a'', CreateTodo ''b'', CompleteTodo 1]) 1
   \<and> create_todo init ''a'' = Inr (1, exec init [CreateTodo ''a''])
   \<and> \<not> is_completed (exec init [CreateTodo ''a'']) 1
   \<and> is_completed (snd (complete_todo (exec init [CreateTodo ''a'']) 1)) 1
   \<and> 3 \<notin> set (created_ids init [CreateTodo ''a'', CreateTodo ''b'', CompleteTodo 1])
   \<and> 1 \<in> set (created_ids init [CreateTodo ''a'', CreateTodo ''b'', CompleteTodo 1])
   \<and> \<not> is_completed (exec init ([CreateTodo ''a'', CreateTodo ''b'', CompleteTodo 1]
                                  @ DeleteTodo 1 # [CompleteTodo 1, CreateTodo ''c''])) 1"
  using is_completed_spec [where todo_id = 3
      and s = "exec init [CreateTodo ''a'', CreateTodo ''b'', CompleteTodo 1]"
      and cs = "[CreateTodo ''a'', CreateTodo ''b'', CompleteTodo 1]"]
    is_completed_spec [where todo_id = 1 and b = True
      and s = "exec init [CreateTodo ''a'', CreateTodo ''b'', CompleteTodo 1]"
      and cs = "[CreateTodo ''a'', CreateTodo ''b'', CompleteTodo 1]"
      and ds = "[CompleteTodo 1, CreateTodo ''c'']"]
    is_completed_spec [where s = init and task = "''a''" and new_id = 1
      and s' = "exec init [CreateTodo ''a'']"]
  by (simp add: init_def create_todo_eq complete_todo_def delete_todo_def Let_def is_completed_def)

subsection \<open>The two maps have the same keys\<close>

text \<open>
  Claim C7. In every state reached from the initial one (both maps empty) the key set of
  \<^verbatim>\<open>todos\<close> equals the key set of \<^verbatim>\<open>completed\<close>; and every single call keeps the
  two key sets equal when they were equal before it.
\<close>

theorem maps_same_keys:
  "dom (todos (exec init cs)) = dom (completed (exec init cs))
   \<and> (dom (todos s) = dom (completed s) \<longrightarrow>
        dom (todos (snd (invoke s c))) = dom (completed (snd (invoke s c))))"
proof
  show "dom (todos (exec init cs)) = dom (completed (exec init cs))"
    by (rule exec_dom_eq) (simp add: init_def)
  show "dom (todos s) = dom (completed s) \<longrightarrow>
        dom (todos (snd (invoke s c))) = dom (completed (snd (invoke s c)))"
    by (simp add: invoke_dom_eq)
qed

theorem maps_same_keys_witness:
  "dom (todos init) = dom (completed init)
   \<and> dom (todos (snd (invoke init (CreateTodo ''a'')))) = {1}
   \<and> dom (completed (snd (invoke init (CreateTodo ''a'')))) = {1}
   \<and> dom (todos (exec init [CreateTodo ''a'', CreateTodo ''b'', CompleteTodo 2, DeleteTodo 1])) = {2}
   \<and> dom (completed (exec init [CreateTodo ''a'', CreateTodo ''b'', CompleteTodo 2, DeleteTodo 1])) = {2}"
  using maps_same_keys [of "[CreateTodo ''a'', CreateTodo ''b'', CompleteTodo 2, DeleteTodo 1]"
      init "CreateTodo ''a''"]
  by (simp add: init_def create_todo_eq complete_todo_def delete_todo_def Let_def)

subsection \<open>The counter never decreases and no id is returned twice\<close>

lemma create_returns_larger_id:
  assumes "fst (invoke (exec init cs) (CreateTodo task)) = ReturnedUInt64 new_id"
    and "old_id \<in> set (created_ids init cs)"
  shows "old_id < new_id"
proof -
  have "sorted_wrt (<) (created_ids init (cs @ [CreateTodo task]))"
    by (rule created_ids_strict)
  with assms(1) have "sorted_wrt (<) (created_ids init cs @ [new_id])"
    by (simp add: created_ids_append)
  with assms(2) show ?thesis by (simp add: sorted_wrt_append)
qed

text \<open>
  Claim C8. No call decreases the counter, in any state. In every state reached from the
  initial one the counter equals the number of ids that \<^verbatim>\<open>create_todo\<close> has returned,
  that is, the number of records ever created; no id has been returned twice; and a
  \<^verbatim>\<open>create_todo\<close> that returns an id, after whatever creates, completions and deletions,
  returns one strictly greater than every id returned before, so never an id that was
  assigned earlier, deleted or not.
\<close>

theorem counter_never_reuses:
  "unat (todo_counter s) \<le> unat (todo_counter (snd (invoke s c)))
   \<and> todo_counter s \<le> todo_counter (snd (invoke s c))
   \<and> unat (todo_counter (exec init cs)) = length (created_ids init cs)
   \<and> distinct (created_ids init cs)
   \<and> (fst (invoke (exec init cs) (CreateTodo task)) = ReturnedUInt64 new_id \<longrightarrow>
        (\<forall>old_id \<in> set (created_ids init cs). old_id < new_id)
        \<and> new_id \<notin> set (created_ids init cs))"
proof -
  have 1: "unat (todo_counter s) \<le> unat (todo_counter (snd (invoke s c)))"
    by (rule invoke_counter_mono)
  then have 2: "todo_counter s \<le> todo_counter (snd (invoke s c))"
    by (simp add: word_le_nat_alt)
  have 3: "unat (todo_counter (exec init cs)) = length (created_ids init cs)"
    by (simp add: length_created_ids_init)
  have 4: "distinct (created_ids init cs)"
    using created_ids_strict [of cs] by (simp add: strict_sorted_iff)
  have 5: "(\<forall>old_id \<in> set (created_ids init cs). old_id < new_id)
        \<and> new_id \<notin> set (created_ids init cs)"
    if "fst (invoke (exec init cs) (CreateTodo task)) = ReturnedUInt64 new_id"
    using create_returns_larger_id [OF that] by auto
  from 1 2 3 4 5 show ?thesis by blast
qed

theorem counter_never_reuses_witness:
  "fst (invoke (exec init [CreateTodo ''a'', CreateTodo ''b'', DeleteTodo 2, DeleteTodo 1])
          (CreateTodo ''c'')) = ReturnedUInt64 3
   \<and> created_ids init [CreateTodo ''a'', CreateTodo ''b'', DeleteTodo 2, DeleteTodo 1] = [1, 2]
   \<and> (1 :: uint64) < 3 \<and> (2 :: uint64) < 3
   \<and> 3 \<notin> set (created_ids init [CreateTodo ''a'', CreateTodo ''b'', DeleteTodo 2, DeleteTodo 1])
   \<and> unat (todo_counter (exec init [CreateTodo ''a'', CreateTodo ''b'', DeleteTodo 2, DeleteTodo 1])) = 2"
  using counter_never_reuses [where cs = "[CreateTodo ''a'', CreateTodo ''b'', DeleteTodo 2, DeleteTodo 1]"
      and task = "''c''" and new_id = 3]
  by (simp add: init_def create_todo_eq delete_todo_def Let_def)

subsection \<open>The not-found message is an ordinary string\<close>

text \<open>
  Claim C9. After \<^verbatim>\<open>create_todo\<close> with the task \<open>Todo not found\<close> has returned an id,
  \<^verbatim>\<open>get_todo\<close> of that id, which exists, returns the string \<open>Todo not found\<close>: the very
  string that \<^verbatim>\<open>get_todo\<close> returns for an id that does not exist. The two answers are
  equal, so the caller cannot tell them apart.
\<close>

theorem not_found_indistinguishable:
  "create_todo s ''Todo not found'' = Inr (new_id, s') \<and> absent \<notin> dom (todos s') \<longrightarrow>
     new_id \<in> dom (todos s') \<and> todos s' new_id = Some ''Todo not found''
     \<and> get_todo s' new_id = ''Todo not found''
     \<and> get_todo s' absent = ''Todo not found''
     \<and> get_todo s' new_id = get_todo s' absent"
  by (auto simp: create_todo_eq get_todo_def split: if_splits option.splits)

theorem not_found_indistinguishable_witness:
  "create_todo init ''Todo not found'' = Inr (1, exec init [CreateTodo ''Todo not found''])
   \<and> 2 \<notin> dom (todos (exec init [CreateTodo ''Todo not found'']))
   \<and> 1 \<in> dom (todos (exec init [CreateTodo ''Todo not found'']))
   \<and> get_todo (exec init [CreateTodo ''Todo not found'']) 1 = ''Todo not found''
   \<and> get_todo (exec init [CreateTodo ''Todo not found'']) 1
       = get_todo (exec init [CreateTodo ''Todo not found'']) 2"
  using not_found_indistinguishable [of init 1 "exec init [CreateTodo ''Todo not found'']" 2]
  by (simp add: init_def create_todo_eq)

subsection \<open>The 64-bit range of the counter\<close>

text \<open>
  Claim C10. The counter is a 64-bit unsigned integer, at most \<open>2^64 - 1\<close>. In a state
  whose counter is below \<open>2^64 - 1\<close>, \<^verbatim>\<open>create_todo\<close> succeeds, returns
  \<open>counter + 1\<close> and stores it, and the new counter is greater than the old one by exactly
  one. In a state whose counter is \<open>2^64 - 1\<close> the sum \<open>counter + 1\<close> is outside the
  64-bit range (modulo \<open>2^64\<close> it is 0): the call is rejected and the state stays as it is.
\<close>

theorem create_todo_uint64_range:
  "unat (todo_counter s) \<le> 2 ^ 64 - 1
   \<and> (unat (todo_counter s) < 2 ^ 64 - 1 \<longrightarrow>
        (\<exists>s'. create_todo s task = Inr (todo_counter s + 1, s')
              \<and> todo_counter s' = todo_counter s + 1)
        \<and> unat (todo_counter s + 1) = unat (todo_counter s) + 1
        \<and> todo_counter s < todo_counter s + 1)
   \<and> (unat (todo_counter s) = 2 ^ 64 - 1 \<longrightarrow>
        \<not> unat (todo_counter s) + 1 < 2 ^ 64
        \<and> todo_counter s + 1 = 0
        \<and> create_todo s task = Inl UInt64Overflow
        \<and> invoke s (CreateTodo task) = (Rejected UInt64Overflow, s))"
proof -
  have "unat (todo_counter s) < 2 ^ LENGTH(64)" by (rule unsigned_less)
  then have 1: "unat (todo_counter s) \<le> 2 ^ 64 - 1" by simp
  have 2: "(\<exists>s'. create_todo s task = Inr (todo_counter s + 1, s')
              \<and> todo_counter s' = todo_counter s + 1)
        \<and> unat (todo_counter s + 1) = unat (todo_counter s) + 1
        \<and> todo_counter s < todo_counter s + 1"
    if "unat (todo_counter s) < 2 ^ 64 - 1"
    using that by (simp add: create_todo_eq unat_uint64_succ word_less_nat_alt)
  have 3: "\<not> unat (todo_counter s) + 1 < 2 ^ 64
        \<and> todo_counter s + 1 = 0
        \<and> create_todo s task = Inl UInt64Overflow
        \<and> invoke s (CreateTodo task) = (Rejected UInt64Overflow, s)"
    if m: "unat (todo_counter s) = 2 ^ 64 - 1"
  proof -
    from m have "unat (todo_counter s) = unat (18446744073709551615 :: uint64)" by simp
    then have "todo_counter s = 18446744073709551615" by (simp only: word_unat_eq_iff)
    then have "todo_counter s + 1 = 0" by simp
    with m show ?thesis by (simp add: create_todo_eq)
  qed
  from 1 2 3 show ?thesis by blast
qed

theorem create_todo_uint64_range_witness:
  "unat (todo_counter init) < 2 ^ 64 - 1
   \<and> create_todo init ''a'' = Inr (1, exec init [CreateTodo ''a''])
   \<and> unat (todo_counter (init\<lparr>todo_counter := 18446744073709551615\<rparr>)) = 2 ^ 64 - 1
   \<and> todo_counter (init\<lparr>todo_counter := 18446744073709551615\<rparr>) + 1 = 0
   \<and> create_todo (init\<lparr>todo_counter := 18446744073709551615\<rparr>) ''a'' = Inl UInt64Overflow"
  using create_todo_uint64_range [of init "''a''"]
    create_todo_uint64_range [of "init\<lparr>todo_counter := 18446744073709551615\<rparr>" "''a''"]
  by (simp add: init_def create_todo_eq)

text \<open>
  The state with counter \<open>2^64 - 1\<close> is reached from the initial state by \<open>2^64 - 1\<close>
  calls of \<^verbatim>\<open>create_todo\<close>; the next one is rejected.
\<close>

lemma create_rejected_after_max_creates:
  assumes "length tasks = 2 ^ 64 - 1"
  shows "create_todo (exec init (map CreateTodo tasks)) task = Inl UInt64Overflow"
proof -
  from assms have "unat (todo_counter init) + length tasks < 2 ^ 64"
    by (simp add: init_def)
  then have "length (created_ids init (map CreateTodo tasks)) = length tasks"
    by (rule creates_succeed)
  with assms have "unat (todo_counter (exec init (map CreateTodo tasks))) = 2 ^ 64 - 1"
    by (simp only: length_created_ids_init)
  then show ?thesis by (simp add: create_todo_eq)
qed

end
